theory Spec2Isabelle
  imports Main
begin

section \<open>Values, exceptions and external calls\<close>

text \<open>
  The two modules do no computation of their own: every statement is a call into an
  external collaborator (a key manager, five scanners, a logger, a key-generation
  library), to \<^verbatim>\<open>str\<close>, to \<^verbatim>\<open>print\<close> or to \<^verbatim>\<open>time.sleep\<close>. What the collaborators return is
  opaque to the code, so the model takes their behaviour as a parameter (an oracle that
  says how each call ends) and records what the code does with it: which calls it makes,
  in which order, what it prints, how long it sleeps, and which exception leaves it.
\<close>

datatype py_value = PyNone | PyBool bool | PyObj nat
  \<comment> \<open>\<open>PyObj n\<close>: a reference to an object the code never looks into\<close>

datatype exn =
    Exn string
    \<comment> \<open>an instance of \<^verbatim>\<open>Exception\<close> for which \<^verbatim>\<open>str(e)\<close> returns the string\<close>
  | Exn_str_raises exn
    \<comment> \<open>an instance of \<^verbatim>\<open>Exception\<close> for which \<^verbatim>\<open>str(e)\<close> raises the exception given\<close>
  | Base_only string
    \<comment> \<open>a \<^verbatim>\<open>BaseException\<close> that is no \<^verbatim>\<open>Exception\<close>: \<^verbatim>\<open>KeyboardInterrupt\<close>, \<^verbatim>\<open>SystemExit\<close>\<close>

datatype 'a outcome = Returns 'a | Raises exn

text \<open>
  A statement runs in a state and either completes with a value (\<open>Inr\<close>) or raises
  (\<open>Inl\<close>); in both cases the state it has reached is kept.
\<close>

type_synonym ('a, 's) prog = "'s \<Rightarrow> (exn + 'a) \<times> 's"

definition and_then :: "('a, 's) prog \<Rightarrow> ('a \<Rightarrow> ('b, 's) prog) \<Rightarrow> ('b, 's) prog" where
  "and_then m f s = (case m s of (Inl x, s') \<Rightarrow> (Inl x, s') | (Inr v, s') \<Rightarrow> f v s')"

fun is_Exception :: "exn \<Rightarrow> bool" where
  "is_Exception (Exn msg) = True"
| "is_Exception (Exn_str_raises x) = True"
| "is_Exception (Base_only b) = False"

text \<open>
  \<^verbatim>\<open>try: body except Exception as e: handler\<close>. The handler runs outside the protected
  block, so what it raises is not caught here.
\<close>

definition try_except_Exception ::
  "('a, 's) prog \<Rightarrow> (exn \<Rightarrow> ('a, 's) prog) \<Rightarrow> ('a, 's) prog" where
  "try_except_Exception body handler s =
     (case body s of
        (Inl err, s') \<Rightarrow> if is_Exception err then handler err s' else (Inl err, s')
      | (Inr v, s') \<Rightarrow> (Inr v, s'))"

text \<open>\<^verbatim>\<open>str(e)\<close> for an exception \<open>e\<close>: it returns the message, or raises.\<close>

fun str :: "exn \<Rightarrow> (string, 's) prog" where
  "str (Exn msg) s = (Inr msg, s)"
| "str (Exn_str_raises x) s = (Inl x, s)"
| "str (Base_only b) s = (Inr b, s)"

section \<open>\<^verbatim>\<open>monitor.py\<close>\<close>

datatype probe =
    check_keys        \<comment> \<open>\<^verbatim>\<open>self.key_manager.check_keys()\<close>\<close>
  | check_privacy     \<comment> \<open>\<^verbatim>\<open>self.tf_privacy.check_privacy()\<close>\<close>
  | detect_anomalies  \<comment> \<open>\<^verbatim>\<open>self.clip.detect_anomalies()\<close>\<close>
  | scan_system       \<comment> \<open>\<^verbatim>\<open>self.deepexploit.scan_system()\<close>\<close>
  | monitor_host      \<comment> \<open>\<^verbatim>\<open>self.aihids.monitor_host()\<close>\<close>
  | run_pentest       \<comment> \<open>\<^verbatim>\<open>self.caldera.run_pentest()\<close>\<close>

record SecurityMonitor =
  key_manager :: py_value
  tf_privacy :: py_value
  clip :: py_value
  deepexploit :: py_value
  aihids :: py_value
  caldera :: py_value

datatype event =
    Call probe     \<comment> \<open>the probe was called, however the call ended\<close>
  | Print string   \<comment> \<open>\<^verbatim>\<open>print\<close> was called with this text, however the call ended\<close>
  | Sleep nat      \<comment> \<open>\<^verbatim>\<open>time.sleep\<close> was called with this number of seconds\<close>

record world =
  monitor_self :: SecurityMonitor   \<comment> \<open>the fields of \<^verbatim>\<open>self\<close>\<close>
  trace :: "event list"             \<comment> \<open>the external actions so far, oldest first\<close>
  clock :: nat                      \<comment> \<open>seconds of wall-clock time elapsed\<close>

record reply =
  took :: nat                   \<comment> \<open>seconds the call runs for\<close>
  ended :: "py_value outcome"   \<comment> \<open>how it ends\<close>

definition call :: "(probe \<Rightarrow> reply) \<Rightarrow> probe \<Rightarrow> (py_value, world) prog" where
  "call e p s =
     (let s' = s\<lparr>trace := trace s @ [Call p], clock := clock s + took (e p)\<rparr>
      in case ended (e p) of Returns v \<Rightarrow> (Inr v, s') | Raises x \<Rightarrow> (Inl x, s'))"

text \<open>
  A probe ends, by returning or by raising, after the time its reply gives, and
  \<^verbatim>\<open>time.sleep\<close> returns after the seconds asked for. \<^verbatim>\<open>print\<close> may fail, as when the
  text cannot be encoded for the output stream or the stream is closed: \<open>out text\<close> is
  \<open>None\<close> when \<^verbatim>\<open>print(text)\<close> returns and \<open>Some x\<close> when it raises \<open>x\<close>. It takes no
  time. \<^verbatim>\<open>log_status\<close> is the method of lines 42 to 44, whose body is \<^verbatim>\<open>pass\<close>.
\<close>

definition sleep :: "nat \<Rightarrow> (py_value, world) prog" where
  "sleep n s = (Inr PyNone, s\<lparr>trace := trace s @ [Sleep n], clock := clock s + n\<rparr>)"

definition print :: "(string \<Rightarrow> exn option) \<Rightarrow> string \<Rightarrow> (py_value, world) prog" where
  "print out text s =
     (let s' = s\<lparr>trace := trace s @ [Print text]\<rparr>
      in case out text of None \<Rightarrow> (Inr PyNone, s') | Some x \<Rightarrow> (Inl x, s'))"

definition log_status :: "py_value \<Rightarrow> (py_value, world) prog" where
  "log_status key_status s = (Inr PyNone, s)"

text \<open>The body of the \<^verbatim>\<open>try\<close> block, lines 25 to 38, statement by statement.\<close>

definition try_body :: "(probe \<Rightarrow> reply) \<Rightarrow> (py_value, world) prog" where
  "try_body e =
     and_then (call e check_keys) (\<lambda>key_status.
     and_then (call e check_privacy) (\<lambda>_.
     and_then (call e detect_anomalies) (\<lambda>_.
     and_then (call e scan_system) (\<lambda>_.
     and_then (call e monitor_host) (\<lambda>_.
     and_then (call e run_pentest) (\<lambda>_.
     and_then (log_status key_status) (\<lambda>_.
     sleep 60)))))))"

text \<open>
  One pass through the body of \<^verbatim>\<open>while True\<close>: the \<^verbatim>\<open>try\<close> block and its handler,
  line 40, which evaluates \<^verbatim>\<open>str(e)\<close> and then prints. An exception raised by either of
  the two leaves the iteration.
\<close>

definition iteration ::
  "(string \<Rightarrow> exn option) \<Rightarrow> (probe \<Rightarrow> reply) \<Rightarrow> (py_value, world) prog" where
  "iteration out e =
     try_except_Exception (try_body e)
       (\<lambda>err. and_then (str err) (\<lambda>msg. print out (''Monitoring error: '' @ msg)))"

text \<open>
  The loop has no \<^verbatim>\<open>break\<close> and no \<^verbatim>\<open>return\<close>: it ends only when an exception leaves
  an iteration. \<open>monitor out env i s\<close> runs it from iteration \<open>i\<close>, where \<open>env i\<close> tells
  how the probes behave in that iteration and \<open>out i\<close> how \<^verbatim>\<open>print\<close> does; the value
  \<open>None\<close> means that it never returns.
\<close>

partial_function (option) monitor ::
  "(nat \<Rightarrow> string \<Rightarrow> exn option) \<Rightarrow> (nat \<Rightarrow> probe \<Rightarrow> reply) \<Rightarrow> nat \<Rightarrow> world
     \<Rightarrow> (exn \<times> world) option" where
  "monitor out env i s =
     (case iteration (out i) (env i) s of
        (Inl x, s') \<Rightarrow> Some (x, s')
      | (Inr _, s') \<Rightarrow> monitor out env (Suc i) s')"

text \<open>The same loop observed for at most \<open>n\<close> iterations: \<open>None\<close> says it is still running.\<close>

fun run ::
  "nat \<Rightarrow> (nat \<Rightarrow> string \<Rightarrow> exn option) \<Rightarrow> (nat \<Rightarrow> probe \<Rightarrow> reply) \<Rightarrow> nat \<Rightarrow> world
     \<Rightarrow> exn option \<times> world" where
  "run 0 out env i s = (None, s)"
| "run (Suc n) out env i s =
     (case iteration (out i) (env i) s of
        (Inl x, s') \<Rightarrow> (Some x, s')
      | (Inr _, s') \<Rightarrow> run n out env (Suc i) s')"

section \<open>Describing an iteration\<close>

text \<open>The checks in the order in which the \<^verbatim>\<open>try\<close> block calls them.\<close>

definition checks :: "probe list" where
  "checks = [check_keys, check_privacy, detect_anomalies, scan_system, monitor_host, run_pentest]"

text \<open>
  \<open>raised e\<close> is the check that raises in an iteration whose probes behave as \<open>e\<close> says,
  with what it raises: the first one, in calling order, that does not return. A later
  check whose reply would be an exception is never called, so it raises nothing.
\<close>

fun first_raise :: "(probe \<Rightarrow> reply) \<Rightarrow> probe list \<Rightarrow> (probe \<times> exn) option" where
  "first_raise e [] = None"
| "first_raise e (p # ps) =
     (case ended (e p) of Raises x \<Rightarrow> Some (p, x) | Returns _ \<Rightarrow> first_raise e ps)"

definition raised :: "(probe \<Rightarrow> reply) \<Rightarrow> (probe \<times> exn) option" where
  "raised e = first_raise e checks"

definition up_to :: "probe \<Rightarrow> probe list" where
  "up_to p = takeWhile (\<lambda>q. q \<noteq> p) checks @ [p]"

definition after :: "probe \<Rightarrow> probe list" where
  "after p = tl (dropWhile (\<lambda>q. q \<noteq> p) checks)"

definition time_of :: "(probe \<Rightarrow> reply) \<Rightarrow> probe list \<Rightarrow> nat" where
  "time_of e ps = sum_list (map (\<lambda>p. took (e p)) ps)"

text \<open>What an iteration adds to the trace, and the calls among some events.\<close>

definition emitted :: "world \<Rightarrow> world \<Rightarrow> event list" where
  "emitted s s' = drop (length (trace s)) (trace s')"

fun calls_in :: "event list \<Rightarrow> probe list" where
  "calls_in [] = []"
| "calls_in (Call p # evs) = p # calls_in evs"
| "calls_in (_ # evs) = calls_in evs"

fun sleeps_in :: "event list \<Rightarrow> nat list" where
  "sleeps_in [] = []"
| "sleeps_in (Sleep n # evs) = n # sleeps_in evs"
| "sleeps_in (_ # evs) = sleeps_in evs"

text \<open>The checks an iteration gets to call: all of them, or those up to the one that raises.\<close>

definition invoked :: "(probe \<Rightarrow> reply) \<Rightarrow> probe list" where
  "invoked e = (case raised e of None \<Rightarrow> checks | Some (p, x) \<Rightarrow> up_to p)"

text \<open>
  The schedule the specification asks for, in its own words: the next tick starts once
  the interval has elapsed since the tick started, and at once when the work has taken
  longer than the interval. It is here to be compared with what the loop does.
\<close>

definition aligned_next_tick :: "nat \<Rightarrow> nat \<Rightarrow> nat \<Rightarrow> nat" where
  "aligned_next_tick interval tick_start work_done = max work_done (tick_start + interval)"

section \<open>\<^verbatim>\<open>pqc_plugin.py\<close>\<close>

datatype scheme =
    Kyber512     \<comment> \<open>\<^verbatim>\<open>pqcrypto.kem.kyber512.keypair()\<close>\<close>
  | Dilithium2   \<comment> \<open>\<^verbatim>\<open>pqcrypto.sign.dilithium2.keypair()\<close>\<close>

record PQCPlugin =
  name :: string
  description :: string
  services :: "py_value option"   \<comment> \<open>set by \<^verbatim>\<open>initialize\<close> only\<close>

datatype action = Log_info string | Keypair scheme

record host =
  plugin_self :: PQCPlugin     \<comment> \<open>the fields of \<^verbatim>\<open>self\<close>\<close>
  actions :: "action list"     \<comment> \<open>the external calls so far, oldest first\<close>

text \<open>
  How the logger and the key-generation library behave during one run of \<^verbatim>\<open>execute\<close>.
  For a key pair the outcome is that of the whole assignment
  \<^verbatim>\<open>public_key, private_key = ....keypair()\<close>: the call and the unpacking of its result
  into two names, either of which may raise.
\<close>

record collaborators =
  log_info :: "string \<Rightarrow> py_value outcome"
  keypair :: "scheme \<Rightarrow> (py_value \<times> py_value) outcome"

definition info :: "collaborators \<Rightarrow> string \<Rightarrow> (py_value, host) prog" where
  "info c msg s =
     (let s' = s\<lparr>actions := actions s @ [Log_info msg]\<rparr>
      in case log_info c msg of Returns v \<Rightarrow> (Inr v, s') | Raises x \<Rightarrow> (Inl x, s'))"

definition generate :: "collaborators \<Rightarrow> scheme \<Rightarrow> (py_value \<times> py_value, host) prog" where
  "generate c k s =
     (let s' = s\<lparr>actions := actions s @ [Keypair k]\<rparr>
      in case keypair c k of Returns kp \<Rightarrow> (Inr kp, s') | Raises x \<Rightarrow> (Inl x, s'))"

definition return :: "'a \<Rightarrow> ('a, 's) prog" where
  "return v s = (Inr v, s)"

text \<open>\<^verbatim>\<open>PQCPlugin.execute\<close>, lines 15 to 27. The parameter \<open>operation\<close> is never used.\<close>

definition execute :: "collaborators \<Rightarrow> py_value \<Rightarrow> (py_value, host) prog" where
  "execute c operation =
     and_then (info c ''Executing PQC testing'') (\<lambda>_.
     and_then (generate c Kyber512) (\<lambda>(public_key, private_key).
     and_then (info c ''Generated Kyber key pair'') (\<lambda>_.
     and_then (generate c Dilithium2) (\<lambda>(public_key, private_key).
     and_then (info c ''Generated Dilithium key pair'') (\<lambda>_.
     return (PyBool True))))))"

text \<open>The logger and the library complete every call that \<^verbatim>\<open>execute\<close> makes.\<close>

definition completes :: "collaborators \<Rightarrow> bool" where
  "completes c =
     (case (log_info c ''Executing PQC testing'', keypair c Kyber512,
            log_info c ''Generated Kyber key pair'', keypair c Dilithium2,
            log_info c ''Generated Dilithium key pair'') of
        (Returns _, Returns _, Returns _, Returns _, Returns _) \<Rightarrow> True
      | _ \<Rightarrow> False)"

fun keypairs_in :: "action list \<Rightarrow> scheme list" where
  "keypairs_in [] = []"
| "keypairs_in (Keypair k # as) = k # keypairs_in as"
| "keypairs_in (_ # as) = keypairs_in as"

definition performed :: "host \<Rightarrow> host \<Rightarrow> action list" where
  "performed s s' = drop (length (actions s)) (actions s')"

section \<open>Concrete inputs\<close>

definition w0 :: world where
  "w0 = \<lparr>monitor_self = \<lparr>key_manager = PyObj 1, tf_privacy = PyObj 2, clip = PyObj 3,
                          deepexploit = PyObj 4, aihids = PyObj 5, caldera = PyObj 6\<rparr>,
         trace = [], clock = 0\<rparr>"

text \<open>\<^verbatim>\<open>print\<close> returns whatever the text; \<^verbatim>\<open>print\<close> fails whatever the text.\<close>

definition printing :: "string \<Rightarrow> exn option" where
  "printing text = None"

definition broken_pipe :: "string \<Rightarrow> exn option" where
  "broken_pipe text = Some (Exn ''BrokenPipeError'')"

text \<open>The same behaviour in every iteration.\<close>

definition always :: "'a \<Rightarrow> nat \<Rightarrow> 'a" where
  "always x i = x"

text \<open>Every probe returns after \<open>d\<close> seconds.\<close>

definition healthy :: "nat \<Rightarrow> probe \<Rightarrow> reply" where
  "healthy d p = \<lparr>took = d, ended = Returns (PyObj 0)\<rparr>"

text \<open>Probe \<open>p\<close> raises \<open>x\<close> after a second; the others return after a second.\<close>

definition fails_at :: "probe \<Rightarrow> exn \<Rightarrow> probe \<Rightarrow> reply" where
  "fails_at p x q =
     (if q = p then \<lparr>took = 1, ended = Raises x\<rparr> else \<lparr>took = 1, ended = Returns (PyObj 0)\<rparr>)"

definition h0 :: host where
  "h0 = \<lparr>plugin_self = \<lparr>name = ''PQC Plugin'',
                         description = ''Plugin for AI-powered PQC testing'',
                         services = None\<rparr>,
         actions = []\<rparr>"

definition c0 :: collaborators where
  "c0 = \<lparr>log_info = (\<lambda>_. Returns PyNone), keypair = (\<lambda>_. Returns (PyObj 10, PyObj 11))\<rparr>"

definition c1 :: collaborators where
  "c1 = \<lparr>log_info = (\<lambda>_. Returns PyNone), keypair = (\<lambda>_. Returns (PyObj 20, PyObj 21))\<rparr>"

section \<open>What one iteration does\<close>

lemma and_then_call:
  "and_then (call e p) f s =
     (case ended (e p) of
        Returns v \<Rightarrow> f v (s\<lparr>trace := trace s @ [Call p], clock := clock s + took (e p)\<rparr>)
      | Raises x \<Rightarrow> (Inl x, s\<lparr>trace := trace s @ [Call p], clock := clock s + took (e p)\<rparr>))"
  by (simp add: and_then_def call_def Let_def split: outcome.split)

lemma and_then_log_status: "and_then (log_status k) f s = f PyNone s"
  by (simp add: and_then_def log_status_def)

lemma try_body_raised:
  assumes "raised e = Some (p, x)"
  shows "try_body e s =
    (Inl x, s\<lparr>trace := trace s @ map Call (up_to p), clock := clock s + time_of e (up_to p)\<rparr>)"
  using assms
  by (simp add: raised_def checks_def try_body_def and_then_call up_to_def time_of_def
      split: outcome.splits)

lemma try_body_clean:
  assumes "raised e = None"
  shows "try_body e s =
    (Inr PyNone, s\<lparr>trace := trace s @ map Call checks @ [Sleep 60],
                   clock := clock s + time_of e checks + 60\<rparr>)"
  using assms
  by (simp add: raised_def checks_def try_body_def and_then_call time_of_def
      and_then_log_status sleep_def split: outcome.splits)

lemma handler_Exn:
  "and_then (str (Exn msg)) (\<lambda>m. print out (''Monitoring error: '' @ m)) s =
     ((case out (''Monitoring error: '' @ msg) of None \<Rightarrow> Inr PyNone | Some y \<Rightarrow> Inl y),
      s\<lparr>trace := trace s @ [Print (''Monitoring error: '' @ msg)]\<rparr>)"
  by (simp add: and_then_def print_def Let_def split: option.split)

lemma handler_str_raises:
  "and_then (str (Exn_str_raises y)) f s = (Inl y, s)"
  by (simp add: and_then_def)

lemma iteration_Exn:
  assumes "raised e = Some (p, Exn msg)"
  shows "iteration out e s =
    ((case out (''Monitoring error: '' @ msg) of None \<Rightarrow> Inr PyNone | Some y \<Rightarrow> Inl y),
     s\<lparr>trace := trace s @ map Call (up_to p) @ [Print (''Monitoring error: '' @ msg)],
       clock := clock s + time_of e (up_to p)\<rparr>)"
  by (simp add: iteration_def try_except_Exception_def try_body_raised [OF assms] handler_Exn
      del: append.simps)

lemma iteration_str_raises:
  assumes "raised e = Some (p, Exn_str_raises y)"
  shows "iteration out e s =
    (Inl y, s\<lparr>trace := trace s @ map Call (up_to p), clock := clock s + time_of e (up_to p)\<rparr>)"
  by (simp add: iteration_def try_except_Exception_def try_body_raised [OF assms]
      handler_str_raises)

lemma iteration_Base_only:
  assumes "raised e = Some (p, Base_only b)"
  shows "iteration out e s =
    (Inl (Base_only b), s\<lparr>trace := trace s @ map Call (up_to p),
                           clock := clock s + time_of e (up_to p)\<rparr>)"
  by (simp add: iteration_def try_except_Exception_def try_body_raised [OF assms])

lemma iteration_clean:
  assumes "raised e = None"
  shows "iteration out e s =
    (Inr PyNone, s\<lparr>trace := trace s @ map Call checks @ [Sleep 60],
                   clock := clock s + time_of e checks + 60\<rparr>)"
  by (simp add: iteration_def try_except_Exception_def try_body_clean [OF assms])

lemma iteration_handled:
  assumes "raised e = Some (p, Exn msg)" and "out (''Monitoring error: '' @ msg) = None"
  shows "iteration out e s =
    (Inr PyNone,
     s\<lparr>trace := trace s @ map Call (up_to p) @ [Print (''Monitoring error: '' @ msg)],
       clock := clock s + time_of e (up_to p)\<rparr>)"
  by (simp add: iteration_Exn [OF assms(1)] assms(2) del: append.simps)



lemma first_raise_None_iff:
  "first_raise e ps = None \<longleftrightarrow> list_all (\<lambda>q. \<exists>v. ended (e q) = Returns v) ps"
  by (induction ps) (auto split: outcome.splits)

lemma raised_None_iff:
  "raised e = None \<longleftrightarrow> (\<forall>q. \<exists>v. ended (e q) = Returns v)"
proof -
  have "set checks = UNIV"
  proof -
    have "p \<in> set checks" for p by (cases p) (simp_all add: checks_def)
    then show ?thesis by blast
  qed
  then show ?thesis by (simp add: raised_def first_raise_None_iff list_all_iff)
qed

lemma emitted_append: "trace s' = trace s @ evs \<Longrightarrow> emitted s s' = evs"
  by (simp add: emitted_def)

lemma calls_in_append: "calls_in (xs @ ys) = calls_in xs @ calls_in ys"
  by (induction xs rule: calls_in.induct) simp_all

lemma calls_in_map_Call: "calls_in (map Call ps) = ps"
  by (induction ps) simp_all

lemma sleeps_in_append: "sleeps_in (xs @ ys) = sleeps_in xs @ sleeps_in ys"
  by (induction xs rule: sleeps_in.induct) simp_all

lemma sleeps_in_map_Call: "sleeps_in (map Call ps) = []"
  by (induction ps) simp_all

lemma up_to_after: "up_to p @ after p = checks"
  by (cases p) (simp_all add: up_to_def after_def checks_def)

lemma distinct_checks: "distinct checks"
  by (simp add: checks_def)


text \<open>In every case an iteration only appends to the trace and leaves \<^verbatim>\<open>self\<close> alone.\<close>

lemma iteration_invoked:
  "\<exists>tail. snd (iteration out e s) =
      s\<lparr>trace := trace s @ map Call (invoked e) @ tail,
        clock := clock s + time_of e (invoked e) + sum_list (sleeps_in tail)\<rparr>
    \<and> calls_in tail = []"
proof (cases "raised e")
  case None
  then show ?thesis
    by (intro exI [of _ "[Sleep 60]"]) (simp add: iteration_clean invoked_def)
next
  case (Some a)
  obtain p y where a: "a = (p, y)" by (cases a)
  show ?thesis
  proof (cases y)
    case (Exn m)
    with Some a show ?thesis
      by (intro exI [of _ "[Print (''Monitoring error: '' @ m)]"])
        (simp add: iteration_Exn invoked_def del: append.simps)
  next
    case (Exn_str_raises z)
    with Some a show ?thesis
      by (intro exI [of _ "[]"]) (simp add: iteration_str_raises invoked_def)
  next
    case (Base_only b)
    with Some a show ?thesis
      by (intro exI [of _ "[]"]) (simp add: iteration_Base_only invoked_def)
  qed
qed

section \<open>The loop\<close>



lemma monitor_continues:
  assumes "iteration (out i) (env i) s = (Inr v, s')"
  shows "monitor out env i s = monitor out env (Suc i) s'"
  by (subst monitor.simps) (simp add: assms)

lemma monitor_exits:
  assumes "iteration (out i) (env i) s = (Inl x, s')"
  shows "monitor out env i s = Some (x, s')"
  by (subst monitor.simps) (simp add: assms)

text \<open>\<open>run\<close> is the loop of \<open>monitor\<close>, stopped after \<open>n\<close> iterations.\<close>

lemma run_still_running:
  "run n out env i s = (None, s') \<Longrightarrow> monitor out env i s = monitor out env (i + n) s'"
proof (induction n arbitrary: i s)
  case 0
  then show ?case by simp
next
  case (Suc n)
  show ?case
  proof (cases "iteration (out i) (env i) s")
    case (Pair res s1)
    show ?thesis
    proof (cases res)
      case (Inl x)
      with Pair Suc.prems show ?thesis by simp
    next
      case (Inr v)
      with Pair Suc.prems have "run n out env (Suc i) s1 = (None, s')" by simp
      then have "monitor out env (Suc i) s1 = monitor out env (Suc i + n) s'" by (rule Suc.IH)
      moreover have "monitor out env i s = monitor out env (Suc i) s1"
        using Pair Inr by (simp add: monitor_continues)
      ultimately show ?thesis by simp
    qed
  qed
qed

lemma run_exited:
  "run n out env i s = (Some x, s') \<Longrightarrow> monitor out env i s = Some (x, s')"
proof (induction n arbitrary: i s)
  case 0
  then show ?case by simp
next
  case (Suc n)
  show ?case
  proof (cases "iteration (out i) (env i) s")
    case (Pair res s1)
    show ?thesis
    proof (cases res)
      case (Inl y)
      with Pair Suc.prems have "y = x" "s1 = s'" by simp_all
      with Pair Inl show ?thesis by (simp add: monitor_exits)
    next
      case (Inr v)
      with Pair Suc.prems have "run n out env (Suc i) s1 = (Some x, s')" by simp
      then have "monitor out env (Suc i) s1 = Some (x, s')" by (rule Suc.IH)
      moreover have "monitor out env i s = monitor out env (Suc i) s1"
        using Pair Inr by (simp add: monitor_continues)
      ultimately show ?thesis by simp
    qed
  qed
qed

text \<open>
  Consecutive iterations in each of which a check raises an \<^verbatim>\<open>Exception\<close> that the
  handler reports to the end.
\<close>

lemma run_failing:
  assumes "\<forall>k<n. \<exists>p msg. raised (env (i + k)) = Some (p, Exn msg)
             \<and> out (i + k) (''Monitoring error: '' @ msg) = None"
  shows "\<exists>evs. run n out env i s =
           (None, s\<lparr>trace := trace s @ evs,
                    clock := clock s + (\<Sum>k<n. time_of (env (i + k)) (invoked (env (i + k))))\<rparr>)
         \<and> sleeps_in evs = []"
  using assms
proof (induction n arbitrary: i s)
  case 0
  show ?case by (intro exI [of _ "[]"]) simp
next
  case (Suc n)
  from Suc.prems have "\<exists>p msg. raised (env (i + 0)) = Some (p, Exn msg)
             \<and> out (i + 0) (''Monitoring error: '' @ msg) = None" by blast
  then obtain p msg where r: "raised (env i) = Some (p, Exn msg)"
    and o: "out i (''Monitoring error: '' @ msg) = None" by auto
  define shout where "shout = [Print (''Monitoring error: '' @ msg)]"
  define s1 where "s1 = s\<lparr>trace := trace s @ map Call (up_to p) @ shout,
                   clock := clock s + time_of (env i) (up_to p)\<rparr>"
  define rest where "rest = (\<Sum>k<n. time_of (env (Suc i + k)) (invoked (env (Suc i + k))))"
  have it: "iteration (out i) (env i) s = (Inr PyNone, s1)"
    unfolding s1_def shout_def by (rule iteration_handled [of "env i" p msg "out i", OF r o])
  have "\<forall>k<n. \<exists>p msg. raised (env (Suc i + k)) = Some (p, Exn msg)
             \<and> out (Suc i + k) (''Monitoring error: '' @ msg) = None"
  proof (intro allI impI)
    fix k assume "k < n"
    then have "Suc k < Suc n" by simp
    with Suc.prems have "\<exists>p msg. raised (env (i + Suc k)) = Some (p, Exn msg)
             \<and> out (i + Suc k) (''Monitoring error: '' @ msg) = None" by blast
    then show "\<exists>p msg. raised (env (Suc i + k)) = Some (p, Exn msg)
             \<and> out (Suc i + k) (''Monitoring error: '' @ msg) = None" by simp
  qed
  from Suc.IH [OF this, of s1] obtain evs where
    run: "run n out env (Suc i) s1 = (None, s1\<lparr>trace := trace s1 @ evs, clock := clock s1 + rest\<rparr>)"
    and quiet: "sleeps_in evs = []"
    unfolding rest_def by blast
  have inv: "invoked (env i) = up_to p" by (simp add: invoked_def r)
  have sum: "(\<Sum>k<Suc n. time_of (env (i + k)) (invoked (env (i + k)))) =
        time_of (env i) (up_to p) + rest"
    unfolding rest_def by (simp add: sum.lessThan_Suc_shift inv del: sum.lessThan_Suc)
  have step: "run (Suc n) out env i s = run n out env (Suc i) s1"
    by (simp add: it)
  have state: "s1\<lparr>trace := trace s1 @ evs, clock := clock s1 + rest\<rparr> =
      s\<lparr>trace := trace s @ (map Call (up_to p) @ shout @ evs),
        clock := clock s + (time_of (env i) (up_to p) + rest)\<rparr>"
    by (simp add: s1_def)
  have silent: "sleeps_in (map Call (up_to p) @ shout @ evs) = []"
    by (simp add: sleeps_in_append sleeps_in_map_Call quiet shout_def)
  show ?case
    unfolding sum step run state
    by (intro exI [of _ "map Call (up_to p) @ shout @ evs"] conjI refl silent)
qed

section \<open>Claims about the monitoring loop\<close>

lemma iteration_raised:
  assumes "raised e = Some (p, x)"
  shows "emitted s (snd (iteration out e s)) =
           map Call (up_to p) @
             (case x of Exn msg \<Rightarrow> [Print (''Monitoring error: '' @ msg)] | _ \<Rightarrow> [])"
    and "clock (snd (iteration out e s)) = clock s + time_of e (up_to p)"
proof -
  have "emitted s (snd (iteration out e s)) =
           map Call (up_to p) @
             (case x of Exn msg \<Rightarrow> [Print (''Monitoring error: '' @ msg)] | _ \<Rightarrow> [])
        \<and> clock (snd (iteration out e s)) = clock s + time_of e (up_to p)"
  proof (cases x)
    case (Exn m)
    with assms have r: "raised e = Some (p, Exn m)" by simp
    show ?thesis
      unfolding Exn by (simp add: iteration_Exn [OF r] emitted_def del: append.simps)
  next
    case (Exn_str_raises y)
    with assms have r: "raised e = Some (p, Exn_str_raises y)" by simp
    show ?thesis
      unfolding Exn_str_raises by (simp add: iteration_str_raises [OF r] emitted_def)
  next
    case (Base_only b)
    with assms have r: "raised e = Some (p, Base_only b)" by simp
    show ?thesis
      unfolding Base_only by (simp add: iteration_Base_only [OF r] emitted_def)
  qed
  then show "emitted s (snd (iteration out e s)) =
           map Call (up_to p) @
             (case x of Exn msg \<Rightarrow> [Print (''Monitoring error: '' @ msg)] | _ \<Rightarrow> [])"
    and "clock (snd (iteration out e s)) = clock s + time_of e (up_to p)"
    by blast+
qed

lemma iteration_raised_quiet:
  assumes "raised e = Some (p, x)"
  shows "calls_in (emitted s (snd (iteration out e s))) = up_to p"
    and "sleeps_in (emitted s (snd (iteration out e s))) = []"
  unfolding iteration_raised(1) [OF assms]
  by (cases x; simp add: calls_in_append calls_in_map_Call sleeps_in_append sleeps_in_map_Call)+




text \<open>
  C2, as the specification states it, fails: a check that raises ends the cycle. Here
  \<^verbatim>\<open>check_privacy\<close> raises, and none of the four checks after it is called.
\<close>

theorem cycle_aborted_counterexample:
  "raised (fails_at check_privacy (Exn ''boom'')) = Some (check_privacy, Exn ''boom'')
   \<and> after check_privacy = [detect_anomalies, scan_system, monitor_host, run_pentest]
   \<and> calls_in (emitted w0 (snd (iteration printing (fails_at check_privacy (Exn ''boom'')) w0))) =
       [check_keys, check_privacy]
   \<and> detect_anomalies \<notin>
       set (calls_in (emitted w0
         (snd (iteration printing (fails_at check_privacy (Exn ''boom'')) w0))))"
proof -
  have r: "raised (fails_at check_privacy (Exn ''boom'')) = Some (check_privacy, Exn ''boom'')"
    by (simp add: raised_def checks_def fails_at_def)
  have c: "calls_in (emitted w0 (snd (iteration printing (fails_at check_privacy (Exn ''boom'')) w0))) =
       [check_keys, check_privacy]"
    unfolding iteration_raised_quiet(1) [OF r] by (simp add: up_to_def checks_def)
  have a: "after check_privacy = [detect_anomalies, scan_system, monitor_host, run_pentest]"
    by (simp add: after_def checks_def)
  show ?thesis unfolding c using r a by simp
qed

text \<open>
  C2, amended. A check that raises aborts the rest of its cycle: the iteration has called
  exactly the checks up to and including the one that raised and none of those after it,
  and it has not slept. When an \<^verbatim>\<open>Exception\<close> was raised whose \<^verbatim>\<open>str\<close> returns, the
  handler calls \<^verbatim>\<open>print\<close> with \<^verbatim>\<open>Monitoring error:\<close> and the message, and when that
  \<^verbatim>\<open>print\<close> returns the loop goes on with the next iteration.
\<close>

theorem failing_check_aborts_cycle_only:
  assumes "raised (env i) = Some (p, x)"
  shows "calls_in (emitted s (snd (iteration (out i) (env i) s))) = up_to p
       \<and> up_to p @ after p = checks
       \<and> set (after p) \<inter> set (calls_in (emitted s (snd (iteration (out i) (env i) s)))) = {}
       \<and> sleeps_in (emitted s (snd (iteration (out i) (env i) s))) = []
       \<and> (x = Exn msg \<longrightarrow>
            emitted s (snd (iteration (out i) (env i) s)) =
              map Call (up_to p) @ [Print (''Monitoring error: '' @ msg)])
       \<and> (x = Exn msg \<longrightarrow> out i (''Monitoring error: '' @ msg) = None \<longrightarrow>
            monitor out env i s = monitor out env (Suc i) (snd (iteration (out i) (env i) s)))"
proof (intro conjI impI)
  show c: "calls_in (emitted s (snd (iteration (out i) (env i) s))) = up_to p"
    by (rule iteration_raised_quiet(1) [OF assms])
  show "up_to p @ after p = checks"
    by (rule up_to_after)
  have "distinct (up_to p @ after p)"
    unfolding up_to_after by (rule distinct_checks)
  then have "set (after p) \<inter> set (up_to p) = {}"
    by auto
  then show "set (after p) \<inter> set (calls_in (emitted s (snd (iteration (out i) (env i) s)))) = {}"
    unfolding c .
  show "sleeps_in (emitted s (snd (iteration (out i) (env i) s))) = []"
    by (rule iteration_raised_quiet(2) [OF assms])
next
  assume x: "x = Exn msg"
  show "emitted s (snd (iteration (out i) (env i) s)) =
          map Call (up_to p) @ [Print (''Monitoring error: '' @ msg)]"
    unfolding iteration_raised(1) [OF assms] x by simp
next
  assume x: "x = Exn msg" and o: "out i (''Monitoring error: '' @ msg) = None"
  from assms x have r: "raised (env i) = Some (p, Exn msg)" by simp
  note it = iteration_handled [of "env i" p msg "out i", OF r o]
  show "monitor out env i s = monitor out env (Suc i) (snd (iteration (out i) (env i) s))"
    by (rule monitor_continues [of _ _ _ _ PyNone]) (simp add: it del: append.simps)
qed

theorem failing_check_aborts_cycle_only_witness:
  "raised (always (fails_at scan_system (Exn ''refused'')) 0) = Some (scan_system, Exn ''refused'')
   \<and> always printing 0 (''Monitoring error: '' @ ''refused'') = None
   \<and> calls_in (emitted w0 (snd (iteration (always printing 0)
         (always (fails_at scan_system (Exn ''refused'')) 0) w0))) = up_to scan_system
   \<and> up_to scan_system @ after scan_system = checks
   \<and> set (after scan_system) \<inter>
       set (calls_in (emitted w0 (snd (iteration (always printing 0)
         (always (fails_at scan_system (Exn ''refused'')) 0) w0)))) = {}
   \<and> sleeps_in (emitted w0 (snd (iteration (always printing 0)
         (always (fails_at scan_system (Exn ''refused'')) 0) w0))) = []
   \<and> emitted w0 (snd (iteration (always printing 0)
         (always (fails_at scan_system (Exn ''refused'')) 0) w0)) =
       map Call (up_to scan_system) @ [Print (''Monitoring error: '' @ ''refused'')]
   \<and> monitor (always printing) (always (fails_at scan_system (Exn ''refused''))) 0 w0 =
       monitor (always printing) (always (fails_at scan_system (Exn ''refused''))) (Suc 0)
         (snd (iteration (always printing 0)
           (always (fails_at scan_system (Exn ''refused'')) 0) w0))"
proof -
  have r: "raised (always (fails_at scan_system (Exn ''refused'')) 0) =
      Some (scan_system, Exn ''refused'')"
    by (simp add: always_def raised_def checks_def fails_at_def)
  have o: "always printing 0 t = None" for t
    by (simp add: always_def printing_def)
  note inst = failing_check_aborts_cycle_only
    [of "always (fails_at scan_system (Exn ''refused''))" 0 scan_system "Exn ''refused''"
      w0 "always printing" "''refused''", OF r]
  note c1 = inst [THEN conjunct1]
  note c2 = inst [THEN conjunct2, THEN conjunct1]
  note c3 = inst [THEN conjunct2, THEN conjunct2, THEN conjunct1]
  note c4 = inst [THEN conjunct2, THEN conjunct2, THEN conjunct2, THEN conjunct1]
  note c5 = inst [THEN conjunct2, THEN conjunct2, THEN conjunct2, THEN conjunct2,
      THEN conjunct1, THEN mp, OF refl]
  note c6 = inst [THEN conjunct2, THEN conjunct2, THEN conjunct2, THEN conjunct2,
      THEN conjunct2, THEN mp, THEN mp, OF refl o]
  show ?thesis
    by (intro conjI r o c1 c2 c3 c4 c5 c6)
qed

text \<open>
  C3, as the specification states it, fails: an iteration does not call every check
  whatever fails. Here \<^verbatim>\<open>check_keys\<close> raises; it is the only check called, and
  \<^verbatim>\<open>run_pentest\<close> is called zero times, not once.
\<close>

theorem incomplete_cycle_counterexample:
  "calls_in (emitted w0 (snd (iteration printing (fails_at check_keys (Exn ''no keys'')) w0))) =
     [check_keys]
   \<and> calls_in (emitted w0 (snd (iteration printing (fails_at check_keys (Exn ''no keys'')) w0))) \<noteq>
       checks
   \<and> count_list
       (calls_in (emitted w0 (snd (iteration printing (fails_at check_keys (Exn ''no keys'')) w0))))
       run_pentest = 0"
proof -
  have r: "raised (fails_at check_keys (Exn ''no keys'')) = Some (check_keys, Exn ''no keys'')"
    by (simp add: raised_def checks_def fails_at_def)
  have c: "calls_in (emitted w0 (snd (iteration printing (fails_at check_keys (Exn ''no keys'')) w0))) =
       [check_keys]"
    unfolding iteration_raised_quiet(1) [OF r] by (simp add: up_to_def checks_def)
  show ?thesis unfolding c by (simp add: checks_def)
qed

text \<open>
  C3, amended. Every iteration calls the checks in the fixed order \<^verbatim>\<open>check_keys\<close>,
  \<^verbatim>\<open>check_privacy\<close>, \<^verbatim>\<open>detect_anomalies\<close>, \<^verbatim>\<open>scan_system\<close>, \<^verbatim>\<open>monitor_host\<close>,
  \<^verbatim>\<open>run_pentest\<close>, each at most once: all six when none raises, and otherwise those up
  to and including the first one that raises. The calls are therefore an initial segment
  of that order. No outcome is recorded: the fields of \<^verbatim>\<open>self\<close> are as before. This
  holds however \<^verbatim>\<open>print\<close> behaves.
\<close>

theorem iteration_calls_in_order:
  "calls_in (emitted s (snd (iteration out e s))) =
     (case raised e of None \<Rightarrow> checks | Some (p, x) \<Rightarrow> up_to p)
   \<and> distinct (calls_in (emitted s (snd (iteration out e s))))
   \<and> take (length (calls_in (emitted s (snd (iteration out e s))))) checks =
       calls_in (emitted s (snd (iteration out e s)))
   \<and> monitor_self (snd (iteration out e s)) = monitor_self s"
proof -
  from iteration_invoked [of out e s] obtain tail where
    s': "snd (iteration out e s) =
      s\<lparr>trace := trace s @ map Call (invoked e) @ tail,
        clock := clock s + time_of e (invoked e) + sum_list (sleeps_in tail)\<rparr>"
    and tail: "calls_in tail = []"
    by blast
  have "emitted s (snd (iteration out e s)) = map Call (invoked e) @ tail"
    by (rule emitted_append) (simp add: s')
  then have c: "calls_in (emitted s (snd (iteration out e s))) = invoked e"
    by (simp add: calls_in_append calls_in_map_Call tail)
  have seg: "\<exists>rest. invoked e @ rest = checks"
  proof (cases "raised e")
    case None
    then show ?thesis by (simp add: invoked_def)
  next
    case (Some a)
    obtain p x where "a = (p, x)" by (cases a)
    with Some have "invoked e = up_to p" by (simp add: invoked_def)
    with up_to_after [of p] show ?thesis by auto
  qed
  then obtain rest where rest: "invoked e @ rest = checks" ..
  have "distinct (invoked e @ rest)"
    unfolding rest by (rule distinct_checks)
  then have d: "distinct (invoked e)" by simp
  have "take (length (invoked e)) (invoked e @ rest) = invoked e" by simp
  then have t: "take (length (invoked e)) checks = invoked e"
    unfolding rest .
  have m: "monitor_self (snd (iteration out e s)) = monitor_self s"
    by (simp add: s')
  show ?thesis
    unfolding c using d t m by (simp add: invoked_def)
qed




text \<open>
  C5, as the specification states it, fails: the wait does not depend on how long the
  checks took. When each check takes 5 seconds the work ends 30 seconds after the tick
  started and an aligned schedule starts the next tick at second 60; the loop starts it at
  second 90. When each check takes 20 seconds the cycle overruns the interval and an
  aligned schedule starts the next tick at once, at second 120; the loop starts it at
  second 180.
\<close>

theorem fixed_sleep_counterexample:
  "raised (healthy 5) = None
   \<and> clock w0 + time_of (healthy 5) checks = 30
   \<and> aligned_next_tick 60 (clock w0) (clock w0 + time_of (healthy 5) checks) = 60
   \<and> clock (snd (iteration printing (healthy 5) w0)) = 90
   \<and> raised (healthy 20) = None
   \<and> clock w0 + time_of (healthy 20) checks = 120
   \<and> aligned_next_tick 60 (clock w0) (clock w0 + time_of (healthy 20) checks) = 120
   \<and> clock (snd (iteration printing (healthy 20) w0)) = 180"
proof -
  have r: "raised (healthy d) = None" for d
    by (simp add: raised_def checks_def healthy_def)
  have t: "time_of (healthy d) checks = 6 * d" for d
    by (simp add: time_of_def checks_def healthy_def)
  have c: "clock w0 = 0"
    by (simp add: w0_def)
  show ?thesis
    by (simp add: r t c iteration_clean aligned_next_tick_def)
qed

text \<open>
  C5, amended. Ticks are not aligned to the wall clock: after the checks of an iteration
  have all returned, the loop sleeps a fixed 60 seconds counted from the moment the work
  finished, whatever time the work took, so the next tick starts that time plus 60
  seconds after this one started, also when the work alone has overrun 60 seconds.
\<close>

theorem sleep_is_fixed_after_work:
  assumes "raised e = None"
  shows "emitted s (snd (iteration out e s)) = map Call checks @ [Sleep 60]
       \<and> sleeps_in (emitted s (snd (iteration out e s))) = [60]
       \<and> clock (snd (iteration out e s)) = clock s + time_of e checks + 60"
proof -
  have e: "emitted s (snd (iteration out e s)) = map Call checks @ [Sleep 60]"
    by (rule emitted_append) (simp add: iteration_clean [OF assms])
  have z: "sleeps_in (emitted s (snd (iteration out e s))) = [60]"
    unfolding e by (simp add: sleeps_in_append sleeps_in_map_Call)
  have c: "clock (snd (iteration out e s)) = clock s + time_of e checks + 60"
    by (simp add: iteration_clean [OF assms])
  from e z c show ?thesis by blast
qed

theorem sleep_is_fixed_after_work_witness:
  "raised (healthy 20) = None
   \<and> emitted w0 (snd (iteration printing (healthy 20) w0)) = map Call checks @ [Sleep 60]
   \<and> sleeps_in (emitted w0 (snd (iteration printing (healthy 20) w0))) = [60]
   \<and> clock (snd (iteration printing (healthy 20) w0)) = clock w0 + time_of (healthy 20) checks + 60"
proof -
  have r: "raised (healthy 20) = None"
    by (simp add: raised_def checks_def healthy_def)
  from sleep_is_fixed_after_work [OF r, of w0 printing] r
  show ?thesis by blast
qed

text \<open>
  C6, as it is stated, fails in its second half: a check that keeps failing does not
  always make the loop poll back to back. Here \<^verbatim>\<open>check_keys\<close> raises an \<^verbatim>\<open>Exception\<close>
  in every iteration and the output stream is closed, so that \<^verbatim>\<open>print\<close> raises a
  \<^verbatim>\<open>BrokenPipeError\<close> in the handler: observed for three iterations, the loop has ended
  in the first one with that error, after a single call of \<^verbatim>\<open>check_keys\<close>.
\<close>

theorem handler_failure_stops_polling_counterexample:
  "raised (always (fails_at check_keys (Exn ''down'')) 0) = Some (check_keys, Exn ''down'')
   \<and> always broken_pipe 0 (''Monitoring error: '' @ ''down'') = Some (Exn ''BrokenPipeError'')
   \<and> fst (run 3 (always broken_pipe) (always (fails_at check_keys (Exn ''down''))) 0 w0) =
       Some (Exn ''BrokenPipeError'')
   \<and> calls_in (emitted w0
         (snd (run 3 (always broken_pipe) (always (fails_at check_keys (Exn ''down''))) 0 w0))) =
       [check_keys]
   \<and> monitor (always broken_pipe) (always (fails_at check_keys (Exn ''down''))) 0 w0 =
       Some (Exn ''BrokenPipeError'',
         snd (run 3 (always broken_pipe) (always (fails_at check_keys (Exn ''down''))) 0 w0))"
proof -
  have r: "raised (always (fails_at check_keys (Exn ''down'')) 0) = Some (check_keys, Exn ''down'')"
    by (simp add: always_def raised_def checks_def fails_at_def)
  have o: "always broken_pipe 0 (''Monitoring error: '' @ ''down'') = Some (Exn ''BrokenPipeError'')"
    by (simp add: always_def broken_pipe_def)
  have it: "iteration (always broken_pipe 0) (always (fails_at check_keys (Exn ''down'')) 0) w0 =
      (Inl (Exn ''BrokenPipeError''),
       w0\<lparr>trace := trace w0 @ map Call (up_to check_keys) @
                [Print (''Monitoring error: '' @ ''down'')],
          clock := clock w0 + time_of (always (fails_at check_keys (Exn ''down'')) 0)
                (up_to check_keys)\<rparr>)"
    unfolding iteration_Exn [OF r] o by simp
  have "run (Suc (Suc (Suc 0))) (always broken_pipe) (always (fails_at check_keys (Exn ''down''))) 0 w0 =
      (Some (Exn ''BrokenPipeError''),
       w0\<lparr>trace := trace w0 @ map Call (up_to check_keys) @
                [Print (''Monitoring error: '' @ ''down'')],
          clock := clock w0 + time_of (always (fails_at check_keys (Exn ''down'')) 0)
                (up_to check_keys)\<rparr>)"
    unfolding run.simps it by simp
  then have run: "run 3 (always broken_pipe) (always (fails_at check_keys (Exn ''down''))) 0 w0 =
      (Some (Exn ''BrokenPipeError''),
       w0\<lparr>trace := trace w0 @ map Call (up_to check_keys) @
                [Print (''Monitoring error: '' @ ''down'')],
          clock := clock w0 + time_of (always (fails_at check_keys (Exn ''down'')) 0)
                (up_to check_keys)\<rparr>)"
    by (simp add: numeral_3_eq_3)
  have f: "fst (run 3 (always broken_pipe) (always (fails_at check_keys (Exn ''down''))) 0 w0) =
       Some (Exn ''BrokenPipeError'')"
    unfolding run by simp
  have c: "calls_in (emitted w0
         (snd (run 3 (always broken_pipe) (always (fails_at check_keys (Exn ''down''))) 0 w0))) =
       [check_keys]"
    unfolding run
    by (simp add: emitted_def w0_def up_to_def checks_def)
  have m: "monitor (always broken_pipe) (always (fails_at check_keys (Exn ''down''))) 0 w0 =
       Some (Exn ''BrokenPipeError'',
         snd (run 3 (always broken_pipe) (always (fails_at check_keys (Exn ''down''))) 0 w0))"
    by (rule run_exited) (simp add: f [symmetric])
  show ?thesis
    by (intro conjI r o f c m)
qed

text \<open>
  C6, amended. When a check raises, the iteration does not sleep: it makes no call of
  \<^verbatim>\<open>time.sleep\<close>, and the clock has advanced by the time of the checks called and no
  more. When what was raised is an \<^verbatim>\<open>Exception\<close> that the handler reports to the end
  (\<^verbatim>\<open>str(e)\<close> returns a message and \<^verbatim>\<open>print\<close> returns), the loop goes on with the next
  iteration at once. So while a check keeps failing in this way, the loop polls back to
  back: over any number \<open>n\<close> of such consecutive iterations the loop is still running,
  has never slept, and the clock has advanced by the time of the checks called alone.
\<close>

theorem failing_check_skips_sleep:
  "(raised (env i) = Some (p, x) \<longrightarrow>
      sleeps_in (emitted s (snd (iteration (out i) (env i) s))) = []
      \<and> clock (snd (iteration (out i) (env i) s)) = clock s + time_of (env i) (up_to p))
   \<and> (raised (env i) = Some (p, Exn msg) \<longrightarrow> out i (''Monitoring error: '' @ msg) = None \<longrightarrow>
      monitor out env i s = monitor out env (Suc i) (snd (iteration (out i) (env i) s)))
   \<and> ((\<forall>k<n. \<exists>q m. raised (env (i + k)) = Some (q, Exn m)
                    \<and> out (i + k) (''Monitoring error: '' @ m) = None) \<longrightarrow>
      fst (run n out env i s) = None
      \<and> sleeps_in (emitted s (snd (run n out env i s))) = []
      \<and> clock (snd (run n out env i s)) =
          clock s + (\<Sum>k<n. time_of (env (i + k)) (invoked (env (i + k)))))"
proof (intro conjI impI)
  assume r: "raised (env i) = Some (p, x)"
  show "sleeps_in (emitted s (snd (iteration (out i) (env i) s))) = []"
    by (rule iteration_raised_quiet(2) [OF r])
  show "clock (snd (iteration (out i) (env i) s)) = clock s + time_of (env i) (up_to p)"
    by (rule iteration_raised(2) [OF r])
next
  assume r: "raised (env i) = Some (p, Exn msg)"
    and o: "out i (''Monitoring error: '' @ msg) = None"
  note it = iteration_handled [of "env i" p msg "out i", OF r o]
  show "monitor out env i s = monitor out env (Suc i) (snd (iteration (out i) (env i) s))"
    by (rule monitor_continues [of _ _ _ _ PyNone]) (simp add: it del: append.simps)
next
  assume "\<forall>k<n. \<exists>q m. raised (env (i + k)) = Some (q, Exn m)
                    \<and> out (i + k) (''Monitoring error: '' @ m) = None"
  from run_failing [OF this, of s] obtain evs where
    run: "run n out env i s =
           (None, s\<lparr>trace := trace s @ evs,
                    clock := clock s + (\<Sum>k<n. time_of (env (i + k)) (invoked (env (i + k))))\<rparr>)"
    and quiet: "sleeps_in evs = []"
    by blast
  show "fst (run n out env i s) = None"
    by (simp add: run)
  have "emitted s (snd (run n out env i s)) = evs"
    by (rule emitted_append) (simp add: run)
  then show "sleeps_in (emitted s (snd (run n out env i s))) = []"
    by (simp add: quiet)
  show "clock (snd (run n out env i s)) =
          clock s + (\<Sum>k<n. time_of (env (i + k)) (invoked (env (i + k))))"
    by (simp add: run)
qed

theorem failing_check_skips_sleep_witness:
  "raised (always (fails_at check_keys (Exn ''down'')) 0) = Some (check_keys, Exn ''down'')
   \<and> always printing 0 (''Monitoring error: '' @ ''down'') = None
   \<and> sleeps_in (emitted w0 (snd (iteration (always printing 0)
         (always (fails_at check_keys (Exn ''down'')) 0) w0))) = []
   \<and> clock (snd (iteration (always printing 0)
         (always (fails_at check_keys (Exn ''down'')) 0) w0)) =
       clock w0 + time_of (always (fails_at check_keys (Exn ''down'')) 0) (up_to check_keys)
   \<and> monitor (always printing) (always (fails_at check_keys (Exn ''down''))) 0 w0 =
       monitor (always printing) (always (fails_at check_keys (Exn ''down''))) (Suc 0)
         (snd (iteration (always printing 0) (always (fails_at check_keys (Exn ''down'')) 0) w0))
   \<and> fst (run 3 (always printing) (always (fails_at check_keys (Exn ''down''))) 0 w0) = None
   \<and> sleeps_in (emitted w0
         (snd (run 3 (always printing) (always (fails_at check_keys (Exn ''down''))) 0 w0))) = []
   \<and> clock (snd (run 3 (always printing) (always (fails_at check_keys (Exn ''down''))) 0 w0)) =
       clock w0 + (\<Sum>k<3. time_of (always (fails_at check_keys (Exn ''down'')) (0 + k))
                     (invoked (always (fails_at check_keys (Exn ''down'')) (0 + k))))
   \<and> clock w0 + (\<Sum>k<3. time_of (always (fails_at check_keys (Exn ''down'')) (0 + k))
                     (invoked (always (fails_at check_keys (Exn ''down'')) (0 + k)))) = 3"
proof -
  have r: "raised (always (fails_at check_keys (Exn ''down'')) j) = Some (check_keys, Exn ''down'')"
    for j
    by (simp add: always_def raised_def checks_def fails_at_def)
  have o: "always printing j t = None" for j t
    by (simp add: always_def printing_def)
  have every: "\<forall>k<3. \<exists>q m. raised (always (fails_at check_keys (Exn ''down'')) (0 + k)) =
        Some (q, Exn m) \<and> always printing (0 + k) (''Monitoring error: '' @ m) = None"
    unfolding r o by simp
  have t: "time_of (always (fails_at check_keys (Exn ''down'')) j) (up_to check_keys) = 1" for j
    by (simp add: always_def time_of_def up_to_def checks_def fails_at_def)
  have i: "invoked (always (fails_at check_keys (Exn ''down'')) j) = up_to check_keys" for j
    by (simp add: invoked_def r)
  have total: "clock w0 + (\<Sum>k<3. time_of (always (fails_at check_keys (Exn ''down'')) (0 + k))
                     (invoked (always (fails_at check_keys (Exn ''down'')) (0 + k)))) = 3"
    unfolding i t by (simp add: w0_def)
  note inst = failing_check_skips_sleep
    [of "always (fails_at check_keys (Exn ''down''))" 0 check_keys "Exn ''down''" w0
      "always printing" "''down''" 3]
  note skip = inst [THEN conjunct1, THEN mp, OF r]
  note goes_on = inst [THEN conjunct2, THEN conjunct1, THEN mp, THEN mp, OF r o]
  note polls = inst [THEN conjunct2, THEN conjunct2, THEN mp, OF every]
  show ?thesis
    by (intro conjI r o skip [THEN conjunct1] skip [THEN conjunct2] goes_on
        polls [THEN conjunct1] polls [THEN conjunct2, THEN conjunct1]
        polls [THEN conjunct2, THEN conjunct2] total)
qed

text \<open>
  C7. The logger is a no-op: for every \<open>key_status\<close> and in every state,
  \<^verbatim>\<open>log_status\<close> returns \<^verbatim>\<open>None\<close> and leaves the state as it was: the fields of
  \<^verbatim>\<open>self\<close>, the trace of external actions and the clock.
\<close>

theorem log_status_no_effect:
  "log_status key_status s = (Inr PyNone, s)
   \<and> monitor_self (snd (log_status key_status s)) = monitor_self s
   \<and> trace (snd (log_status key_status s)) = trace s
   \<and> clock (snd (log_status key_status s)) = clock s"
  by (simp add: log_status_def)

section \<open>Claims about the plugin\<close>

lemma and_then_info:
  "and_then (info c msg) f s =
     (case log_info c msg of
        Returns v \<Rightarrow> f v (s\<lparr>actions := actions s @ [Log_info msg]\<rparr>)
      | Raises x \<Rightarrow> (Inl x, s\<lparr>actions := actions s @ [Log_info msg]\<rparr>))"
  by (simp add: and_then_def info_def Let_def split: outcome.split)

lemma and_then_generate:
  "and_then (generate c k) f s =
     (case keypair c k of
        Returns kp \<Rightarrow> f kp (s\<lparr>actions := actions s @ [Keypair k]\<rparr>)
      | Raises x \<Rightarrow> (Inl x, s\<lparr>actions := actions s @ [Keypair k]\<rparr>))"
  by (simp add: and_then_def generate_def Let_def split: outcome.split)

lemma execute_completes:
  assumes "completes c"
  shows "execute c operation s =
    (Inr (PyBool True),
     s\<lparr>actions := actions s @
        [Log_info ''Executing PQC testing'', Keypair Kyber512,
         Log_info ''Generated Kyber key pair'', Keypair Dilithium2,
         Log_info ''Generated Dilithium key pair'']\<rparr>)"
  using assms
  by (simp add: completes_def execute_def and_then_info and_then_generate return_def
      split: outcome.splits prod.splits)

lemma execute_performed:
  "\<exists>acts. snd (execute c operation s) = s\<lparr>actions := actions s @ acts\<rparr>
     \<and> keypairs_in acts \<in> {[], [Kyber512], [Kyber512, Dilithium2]}"
proof (cases "log_info c ''Executing PQC testing''")
  case (Raises x)
  then show ?thesis
    by (intro exI [of _ "[Log_info ''Executing PQC testing'']"])
      (simp add: execute_def and_then_info)
next
  case l1: (Returns v1)
  show ?thesis
  proof (cases "keypair c Kyber512")
    case (Raises x)
    with l1 show ?thesis
      by (intro exI [of _ "[Log_info ''Executing PQC testing'', Keypair Kyber512]"])
        (simp add: execute_def and_then_info and_then_generate)
  next
    case k1: (Returns kp1)
    show ?thesis
    proof (cases "log_info c ''Generated Kyber key pair''")
      case (Raises x)
      with l1 k1 show ?thesis
        by (intro exI [of _ "[Log_info ''Executing PQC testing'', Keypair Kyber512,
              Log_info ''Generated Kyber key pair'']"])
          (simp add: execute_def and_then_info and_then_generate split: prod.splits)
    next
      case l2: (Returns v2)
      show ?thesis
      proof (cases "keypair c Dilithium2")
        case (Raises x)
        with l1 k1 l2 show ?thesis
          by (intro exI [of _ "[Log_info ''Executing PQC testing'', Keypair Kyber512,
                Log_info ''Generated Kyber key pair'', Keypair Dilithium2]"])
            (simp add: execute_def and_then_info and_then_generate split: prod.splits)
      next
        case k2: (Returns kp2)
        with l1 k1 l2 show ?thesis
          by (intro exI [of _ "[Log_info ''Executing PQC testing'', Keypair Kyber512,
                Log_info ''Generated Kyber key pair'', Keypair Dilithium2,
                Log_info ''Generated Dilithium key pair'']"])
            (simp add: execute_def and_then_info and_then_generate return_def
              split: prod.splits outcome.splits)
      qed
    qed
  qed
qed

text \<open>
  C8. Whatever the argument \<open>operation\<close> is, \<^verbatim>\<open>execute\<close> never changes the plugin object
  (no key is retained) and never asks for more key pairs than a Kyber512 one followed by a
  Dilithium2 one, each at most once (no retry). When the logger and the key-generation
  library complete their calls, whatever keys they return (no validation), it makes exactly
  those two key-generation calls, in that order, between its three log messages, and
  returns \<^verbatim>\<open>True\<close>.
\<close>

theorem execute_generates_two_keypairs:
  "plugin_self (snd (execute c operation s)) = plugin_self s
   \<and> keypairs_in (performed s (snd (execute c operation s))) \<in>
       {[], [Kyber512], [Kyber512, Dilithium2]}
   \<and> (completes c \<longrightarrow>
        fst (execute c operation s) = Inr (PyBool True)
        \<and> performed s (snd (execute c operation s)) =
            [Log_info ''Executing PQC testing'', Keypair Kyber512,
             Log_info ''Generated Kyber key pair'', Keypair Dilithium2,
             Log_info ''Generated Dilithium key pair'']
        \<and> keypairs_in (performed s (snd (execute c operation s))) = [Kyber512, Dilithium2])"
proof (intro conjI impI)
  from execute_performed [of c operation s] obtain acts where
    s': "snd (execute c operation s) = s\<lparr>actions := actions s @ acts\<rparr>"
    and k: "keypairs_in acts \<in> {[], [Kyber512], [Kyber512, Dilithium2]}"
    by blast
  show "plugin_self (snd (execute c operation s)) = plugin_self s"
    by (simp add: s')
  have "performed s (snd (execute c operation s)) = acts"
    by (simp add: performed_def s')
  with k show "keypairs_in (performed s (snd (execute c operation s))) \<in>
       {[], [Kyber512], [Kyber512, Dilithium2]}"
    by simp
next
  assume c: "completes c"
  show "fst (execute c operation s) = Inr (PyBool True)"
    by (simp add: execute_completes [OF c])
  show p: "performed s (snd (execute c operation s)) =
            [Log_info ''Executing PQC testing'', Keypair Kyber512,
             Log_info ''Generated Kyber key pair'', Keypair Dilithium2,
             Log_info ''Generated Dilithium key pair'']"
    by (simp add: execute_completes [OF c] performed_def)
  show "keypairs_in (performed s (snd (execute c operation s))) = [Kyber512, Dilithium2]"
    unfolding p by simp
qed

theorem execute_generates_two_keypairs_witness:
  "completes c0
   \<and> plugin_self (snd (execute c0 (PyObj 7) h0)) = plugin_self h0
   \<and> fst (execute c0 (PyObj 7) h0) = Inr (PyBool True)
   \<and> performed h0 (snd (execute c0 (PyObj 7) h0)) =
       [Log_info ''Executing PQC testing'', Keypair Kyber512,
        Log_info ''Generated Kyber key pair'', Keypair Dilithium2,
        Log_info ''Generated Dilithium key pair'']
   \<and> keypairs_in (performed h0 (snd (execute c0 (PyObj 7) h0))) = [Kyber512, Dilithium2]"
proof -
  have c: "completes c0"
    by (simp add: completes_def c0_def)
  from execute_generates_two_keypairs [of c0 "PyObj 7" h0] c
  show ?thesis by blast
qed

text \<open>
  C9. \<^verbatim>\<open>execute\<close> does not depend on its argument: for any two values of \<open>operation\<close>
  the two runs are the same, in what they call, in the state they leave and in how they
  end. When the collaborators complete their calls, in each run with keys of its own, both
  runs perform the same actions and both return \<^verbatim>\<open>True\<close>.
\<close>

theorem execute_ignores_operation:
  "execute c op1 s = execute c op2 s
   \<and> (completes c \<longrightarrow> completes c' \<longrightarrow>
        execute c op1 s = execute c' op2 s
        \<and> fst (execute c op1 s) = Inr (PyBool True)
        \<and> fst (execute c' op2 s) = Inr (PyBool True))"
proof (intro conjI impI)
  show "execute c op1 s = execute c op2 s"
    by (simp add: execute_def)
next
  assume c: "completes c" and c': "completes c'"
  show "execute c op1 s = execute c' op2 s"
    by (simp add: execute_completes [OF c] execute_completes [OF c'])
  show "fst (execute c op1 s) = Inr (PyBool True)"
    by (simp add: execute_completes [OF c])
  show "fst (execute c' op2 s) = Inr (PyBool True)"
    by (simp add: execute_completes [OF c'])
qed

theorem execute_ignores_operation_witness:
  "completes c0 \<and> completes c1
   \<and> execute c0 PyNone h0 = execute c0 (PyObj 7) h0
   \<and> execute c0 PyNone h0 = execute c1 (PyObj 7) h0
   \<and> fst (execute c0 PyNone h0) = Inr (PyBool True)
   \<and> fst (execute c1 (PyObj 7) h0) = Inr (PyBool True)"
proof -
  have c: "completes c0" "completes c1"
    by (simp_all add: completes_def c0_def c1_def)
  from execute_ignores_operation [of c0 PyNone h0 "PyObj 7" c1] c
  show ?thesis by blast
qed

end
